theory Spec2Isabelle
  imports Complex_Main "HOL-Library.Multiset"
begin

section \<open>Errors\<close>

text \<open>
  The two scripts signal failure by raising. The model keeps the exceptions that the
  modelled statements can raise: a failed \<^verbatim>\<open>assert\<close> (with its message), the division
  by a zero float in \<^verbatim>\<open>measure_time\<close>, an index out of range, and the
  \<^verbatim>\<open>CalledProcessError\<close> of \<^verbatim>\<open>subprocess.run(..., check=True)\<close> and
  \<^verbatim>\<open>subprocess.check_output\<close>.
\<close>

datatype error =
    AssertionError string
  | ZeroDivisionError
  | IndexError
  | CalledProcessError

section \<open>Timing sampler: \<^verbatim>\<open>measure_time\<close> of analyze-file.py\<close>

text \<open>
  \<^verbatim>\<open>
  def measure_time(sargs):
      ts = []
      while True:
          if len(ts) > 20:
              break
          if len(ts) >= 8:
              ts.sort()
              if ts[3] / ts[0] < 1.01:  # cheapest 4 deviate less than 1%
                  break

          t0 = time.perf_counter()
          subprocess.call(sargs)
          t1 = time.perf_counter()
          ts.append(t1 - t0)
      ts.sort()
      return ts[0]
  \<close>
  The external process and the clock are the only inputs of the function. An invocation is
  modelled by the durations it shows: \<open>sargs k\<close> is the value \<^verbatim>\<open>t1 - t0\<close> of the
  execution number \<open>k\<close> (counted from 0). A duration is a Python float, a finite binary64
  number, which the model holds as the rational number it is. Dividing by the float
  \<^verbatim>\<open>0.0\<close> raises in Python, which the model keeps.

  The loop state is the number \<open>n\<close> of executions of \<^verbatim>\<open>subprocess.call\<close> made so far
  and the list \<open>ts\<close>; the loop returns both, and the exception if one was raised.
\<close>

type_synonym invocation = "nat \<Rightarrow> rat"

text \<open>
  The test \<^verbatim>\<open>ts[3] / ts[0] < 1.01\<close> is made on floats: the quotient is the exact quotient
  rounded to the nearest binary64 number, a tie going to the number with an even
  significand, and \<^verbatim>\<open>1.01\<close> is the binary64 number \<open>4548635623644201 / 2 ^ 52\<close>
  (\<^verbatim>\<open>0x1.028f5c28f5c29p+0\<close>). Rounding is monotone, and 1 and 2 are binary64 numbers: an
  exact quotient below 1 is rounded to 1 at most, which is below \<^verbatim>\<open>1.01\<close>, and an exact
  quotient of 2 or more is rounded to 2 at least (or to infinity), which is not. Between 1
  and 2 the binary64 numbers are the multiples of \<open>2 ^ - 52\<close>, so that the rounded
  quotient is \<open>round_half_even (r * 2 ^ 52) / 2 ^ 52\<close>.
\<close>

definition round_half_even :: "rat \<Rightarrow> int" where
  "round_half_even q =
     (if q - of_int \<lfloor>q\<rfloor> < 1 / 2 then \<lfloor>q\<rfloor>
      else if 1 / 2 < q - of_int \<lfloor>q\<rfloor> then \<lfloor>q\<rfloor> + 1
      else if even \<lfloor>q\<rfloor> then \<lfloor>q\<rfloor> else \<lfloor>q\<rfloor> + 1)"

text \<open>\<open>float_quotient_below x y\<close> is \<^verbatim>\<open>x / y < 1.01\<close> on the floats \<open>x\<close> and \<open>y\<close>, \<open>y\<close> not zero.\<close>

definition float_quotient_below :: "rat \<Rightarrow> rat \<Rightarrow> bool" where
  "float_quotient_below x y =
     (if x / y < 1 then True
      else if 2 \<le> x / y then False
      else round_half_even (x / y * 2 ^ 52) < 4548635623644201)"

function measure_time_loop :: "invocation \<Rightarrow> nat \<Rightarrow> rat list \<Rightarrow> nat \<times> rat list \<times> error option" where
  "measure_time_loop sargs n ts =
     (if length ts > 20 then (n, ts, None)
      else if length ts \<ge> 8 then
        (if sort ts ! 0 = 0 then (n, sort ts, Some ZeroDivisionError)
         else if float_quotient_below (sort ts ! 3) (sort ts ! 0) then (n, sort ts, None)
         else measure_time_loop sargs (Suc n) (sort ts @ [sargs n]))
      else measure_time_loop sargs (Suc n) (ts @ [sargs n]))"
  by pat_completeness auto
termination
  by (relation "measure (\<lambda>(sargs, n, ts). 21 - length ts)") auto

declare measure_time_loop.simps [simp del]

definition measure_time :: "invocation \<Rightarrow> error + rat" where
  "measure_time sargs =
     (case measure_time_loop sargs 0 [] of
        (n, ts, Some e) \<Rightarrow> Inl e
      | (n, ts, None) \<Rightarrow> (case sort ts of [] \<Rightarrow> Inl IndexError | t # _ \<Rightarrow> Inr t))"

text \<open>The number of times \<^verbatim>\<open>measure_time\<close> runs the external process.\<close>

definition executions :: "invocation \<Rightarrow> nat" where
  "executions sargs = fst (measure_time_loop sargs 0 [])"

text \<open>The durations observed by \<^verbatim>\<open>measure_time\<close>, in the order of the executions.\<close>

definition observed :: "invocation \<Rightarrow> rat list" where
  "observed sargs = map sargs [0 ..< executions sargs]"

text \<open>
  The early-stop test of the loop, read on a list of samples: the smallest sample is not
  zero (the quotient exists) and the 4th-smallest divided by the smallest, as floats, is
  below \<^verbatim>\<open>1.01\<close>.
\<close>

definition ratio_below :: "rat list \<Rightarrow> bool" where
  "ratio_below ts =
     (sort ts ! 0 \<noteq> 0 \<and> float_quotient_below (sort ts ! 3) (sort ts ! 0))"

text \<open>
  Three invocations to run the sampler on: one whose every run takes \<open>d\<close> seconds, one
  whose run number \<open>k\<close> takes \<open>k + 1\<close> seconds, and one whose first run takes \<^verbatim>\<open>3.0\<close>
  seconds and every other run \<^verbatim>\<open>3.03\<close> seconds, the binary64 number
  \<open>6822953435466301 / 2 ^ 51\<close>.
\<close>

definition steady :: "rat \<Rightarrow> invocation" where
  "steady d k = d"

definition slowing :: invocation where
  "slowing k = of_nat (Suc k)"

definition near_threshold :: invocation where
  "near_threshold k = (if k = 0 then 3 else 6822953435466301 / 2 ^ 51)"

section \<open>Characters and regular expressions of analyze-file.py\<close>

text \<open>
  Python strings are sequences of code points; the model has the code points below 256,
  one \<^typ>\<open>char\<close> each. The character classes are those of Python's \<^verbatim>\<open>re\<close> on
  \<^verbatim>\<open>str\<close> patterns: \<^verbatim>\<open>[a-zA-Z0-9_]\<close> and \<^verbatim>\<open>[0-9a-zA-Z]\<close> are the ASCII ranges as
  written, \<^verbatim>\<open>\w\<close> is every alphanumeric code point and the underscore (below 256: the
  ASCII ones and the letters, superscript digits and fractions of Latin-1), and
  \<^verbatim>\<open>.\<close> is every character but the newline.
\<close>

definition in_range :: "nat \<Rightarrow> nat \<Rightarrow> char \<Rightarrow> bool" where
  "in_range lo hi c = (lo \<le> of_char c \<and> (of_char c :: nat) \<le> hi)"

definition ascii_alnum :: "char \<Rightarrow> bool" where
  "ascii_alnum c = (in_range 48 57 c \<or> in_range 97 122 c \<or> in_range 65 90 c)"

definition alnum_underscore :: "char \<Rightarrow> bool" where
  "alnum_underscore c = (ascii_alnum c \<or> c = CHR ''_'')"

definition word_char :: "char \<Rightarrow> bool" where
  "word_char c =
     (alnum_underscore c \<or> of_char c \<in> {170, 178, 179, 181, 185, 186 :: nat}
      \<or> in_range 188 190 c \<or> in_range 192 214 c \<or> in_range 216 246 c \<or> in_range 248 255 c)"

definition newline :: char where
  "newline = CHR 0x0A"

section \<open>Line counts of the preprocessed output\<close>

text \<open>
  \<^verbatim>\<open>
  with open(output_main) as f:
      line_cnt_raw = 0
      line_cnt = 0
      prog = re.compile(r'[a-zA-Z0-9_]')
      for l in f.readlines():
          line_cnt_raw += 1

          if prog.search(l) is not None:
              line_cnt += 1
      result["line_count_raw"] = line_cnt_raw - 2  # int main() + #include
      result["line_count"] = line_cnt - 1  # int main()
  \<close>
  The input is the list \<^verbatim>\<open>f.readlines()\<close>. The loop state is the pair
  \<open>(line_cnt_raw, line_cnt)\<close>.
\<close>

definition prog_search :: "string \<Rightarrow> bool" where
  "prog_search l = list_ex alnum_underscore l"

fun line_cnt_loop :: "string list \<Rightarrow> int \<times> int \<Rightarrow> int \<times> int" where
  "line_cnt_loop [] (line_cnt_raw, line_cnt) = (line_cnt_raw, line_cnt)"
| "line_cnt_loop (l # ls) (line_cnt_raw, line_cnt) =
     line_cnt_loop ls (line_cnt_raw + 1, if prog_search l then line_cnt + 1 else line_cnt)"

text \<open>The pair \<open>(result["line_count_raw"], result["line_count"])\<close>.\<close>

definition line_counts :: "string list \<Rightarrow> int \<times> int" where
  "line_counts ls =
     (case line_cnt_loop ls (0, 0) of
        (line_cnt_raw, line_cnt) \<Rightarrow> (line_cnt_raw - 2, line_cnt - 1))"

section \<open>Symbol classification\<close>

text \<open>
  \<^verbatim>\<open>
  prog = re.compile(r'^[0-9a-zA-Z]* +(\w) (.+)$')
  \<close>
  \<open>prog_match l\<close> is \<^verbatim>\<open>prog.match(l)\<close>: \<open>None\<close> when the line does not match, and the
  groups \<open>(m.group(1), m.group(2))\<close> otherwise. The expression matches in one way at most:
  the value is the longest prefix of ASCII letters and digits (a shorter one would be
  followed by a letter or digit, not by a space), the run of spaces is the longest one (a
  shorter one would be followed by a space, not by a word character), then come one word
  character, one space, and a non-empty name without newline which reaches the end of the
  line, or the newline that ends the line (where \<^verbatim>\<open>$\<close> matches too).
\<close>

definition match_name :: "string \<Rightarrow> string option" where
  "match_name r =
     (let sn = takeWhile (\<lambda>c. c \<noteq> newline) r; rest = dropWhile (\<lambda>c. c \<noteq> newline) r
      in if sn \<noteq> [] \<and> (rest = [] \<or> rest = [newline]) then Some sn else None)"

definition prog_match :: "string \<Rightarrow> (char \<times> string) option" where
  "prog_match l =
     (let r1 = dropWhile ascii_alnum l;
          sp = takeWhile (\<lambda>c. c = CHR '' '') r1;
          r2 = dropWhile (\<lambda>c. c = CHR '' '') r1
      in if sp = [] then None
         else (case r2 of
                 st # sep # r3 \<Rightarrow>
                   if word_char st \<and> sep = CHR '' ''
                   then (case match_name r3 of None \<Rightarrow> None | Some sn \<Rightarrow> Some (st, sn))
                   else None
               | _ \<Rightarrow> None))"

text \<open>
  \<^verbatim>\<open>
  undef_sym_cnt = 0
  undef_sym_size = 0
  data_sym_cnt = 0
  data_sym_size = 0
  code_sym_cnt = 0
  code_sym_size = 0
  for l in subprocess.check_output(["nm", output_main]).decode("utf-8").splitlines():
      m = prog.match(l)
      assert m is not None, "could not parse line " + l
      st = m.group(1)
      sn = m.group(2)

      if st in ['u', 'U']:
          undef_sym_cnt += 1
          undef_sym_size += len(sn)
      elif st in ['b', 'B', 'r', 'R', 'd', 'D']:
          data_sym_cnt += 1
          data_sym_size += len(sn)
      elif st in ['t', 'T']:
          code_sym_cnt += 1
          code_sym_size += len(sn)
      else:
          assert False, "unknown symbol type " + st
  \<close>
  The input is the list of lines of the output of \<^verbatim>\<open>nm\<close>; the six counters are the loop
  state. Assertions are enabled (the script is not run with \<^verbatim>\<open>-O\<close>).
\<close>

record symbols =
  undef_sym_cnt :: int
  undef_sym_size :: int
  data_sym_cnt :: int
  data_sym_size :: int
  code_sym_cnt :: int
  code_sym_size :: int

definition no_symbols :: symbols where
  "no_symbols = \<lparr>undef_sym_cnt = 0, undef_sym_size = 0, data_sym_cnt = 0, data_sym_size = 0,
     code_sym_cnt = 0, code_sym_size = 0\<rparr>"

fun symbol_loop :: "string list \<Rightarrow> symbols \<Rightarrow> error + symbols" where
  "symbol_loop [] s = Inr s"
| "symbol_loop (l # ls) s =
     (case prog_match l of
        None \<Rightarrow> Inl (AssertionError (''could not parse line '' @ l))
      | Some (st, sn) \<Rightarrow>
          if st \<in> set ''uU'' then
            symbol_loop ls (s\<lparr>undef_sym_cnt := undef_sym_cnt s + 1,
                              undef_sym_size := undef_sym_size s + int (length sn)\<rparr>)
          else if st \<in> set ''bBrRdD'' then
            symbol_loop ls (s\<lparr>data_sym_cnt := data_sym_cnt s + 1,
                              data_sym_size := data_sym_size s + int (length sn)\<rparr>)
          else if st \<in> set ''tT'' then
            symbol_loop ls (s\<lparr>code_sym_cnt := code_sym_cnt s + 1,
                              code_sym_size := code_sym_size s + int (length sn)\<rparr>)
          else Inl (AssertionError (''unknown symbol type '' @ [st])))"

definition count_symbols :: "string list \<Rightarrow> error + symbols" where
  "count_symbols ls = symbol_loop ls no_symbols"

section \<open>The measurement engine: analyze-file.py from \<^verbatim>\<open>Check stats\<close> on\<close>

text \<open>
  The script talks to the compiler, to \<^verbatim>\<open>nm\<close>, to the file system and to the clock. A
  \<open>toolchain\<close> holds what they answer in one run: the lines of the preprocessed target
  (\<open>None\<close> when the compiler exits with a non-zero status, which
  \<^verbatim>\<open>subprocess.run(..., check=True)\<close> turns into \<^verbatim>\<open>CalledProcessError\<close>), the size of
  the object file of the target, the lines printed by \<^verbatim>\<open>nm\<close>, the size of the object
  file of the baseline, and the four invocations that are timed. The checks of the
  command line and the writing of \<^verbatim>\<open>main.cc\<close> and \<^verbatim>\<open>baseline.cc\<close>, which come first
  in the script, are not modelled.
\<close>

record toolchain =
  run_preproc :: "string list option"
  run_compile :: "int option"
  run_nm :: "string list option"
  run_compile_baseline :: "int option"
  call_preproc :: invocation
  call_compile :: invocation
  call_preproc_baseline :: invocation
  call_compile_baseline :: invocation

text \<open>The dictionary \<^verbatim>\<open>result\<close>, one field for each key.\<close>

record metrics =
  line_count_raw :: int
  line_count :: int
  object_size :: int
  undefined_symbol_count :: int
  undefined_symbol_size :: int
  data_symbol_count :: int
  data_symbol_size :: int
  code_symbol_count :: int
  code_symbol_size :: int
  object_size_base :: int
  preprocessing_time :: rat
  compile_time :: rat
  preprocessing_time_base :: rat
  compile_time_base :: rat

definition raise_if_none :: "'a option \<Rightarrow> ('a \<Rightarrow> error + 'b) \<Rightarrow> error + 'b" where
  "raise_if_none r k = (case r of None \<Rightarrow> Inl CalledProcessError | Some x \<Rightarrow> k x)"

definition or_raise :: "error + 'a \<Rightarrow> ('a \<Rightarrow> error + 'b) \<Rightarrow> error + 'b" where
  "or_raise r k = (case r of Inl e \<Rightarrow> Inl e | Inr x \<Rightarrow> k x)"

definition analyze :: "toolchain \<Rightarrow> error + metrics" where
  "analyze tc =
     raise_if_none (run_preproc tc) (\<lambda>ls.
     raise_if_none (run_compile tc) (\<lambda>osize.
     raise_if_none (run_nm tc) (\<lambda>dump.
     or_raise (count_symbols dump) (\<lambda>s.
     raise_if_none (run_compile_baseline tc) (\<lambda>osize_base.
     or_raise (measure_time (call_preproc tc)) (\<lambda>t_preproc.
     or_raise (measure_time (call_compile tc)) (\<lambda>t_compile.
     or_raise (measure_time (call_preproc_baseline tc)) (\<lambda>t_preproc_base.
     or_raise (measure_time (call_compile_baseline tc)) (\<lambda>t_compile_base.
       Inr \<lparr>line_count_raw = fst (line_counts ls),
            line_count = snd (line_counts ls),
            object_size = osize,
            undefined_symbol_count = undef_sym_cnt s,
            undefined_symbol_size = undef_sym_size s,
            data_symbol_count = data_sym_cnt s,
            data_symbol_size = data_sym_size s,
            code_symbol_count = code_sym_cnt s,
            code_symbol_size = code_sym_size s,
            object_size_base = osize_base,
            preprocessing_time = t_preproc,
            compile_time = t_compile,
            preprocessing_time_base = t_preproc_base,
            compile_time_base = t_compile_base\<rparr>)))))))))"

section \<open>The symbol counts read from the grammar\<close>

text \<open>
  The counts as the grammar \<^verbatim>\<open><value> <type-char> <name>\<close> gives them, to compare with
  the loop: \<open>has_type cs l\<close> says that the line \<open>l\<close> matches and that its type character
  is one of \<open>cs\<close>, \<open>name_length l\<close> is the length of the name of a line that matches,
  \<open>class_count\<close> and \<open>class_size\<close> are the number of lines of a class and the sum of the
  lengths of their names.
\<close>

definition has_type :: "string \<Rightarrow> string \<Rightarrow> bool" where
  "has_type cs l = (case prog_match l of None \<Rightarrow> False | Some (st, sn) \<Rightarrow> st \<in> set cs)"

definition name_length :: "string \<Rightarrow> int" where
  "name_length l = (case prog_match l of None \<Rightarrow> 0 | Some (st, sn) \<Rightarrow> int (length sn))"

definition class_count :: "string \<Rightarrow> string list \<Rightarrow> int" where
  "class_count cs ls = int (length (filter (has_type cs) ls))"

definition class_size :: "string \<Rightarrow> string list \<Rightarrow> int" where
  "class_size cs ls = sum_list (map name_length (filter (has_type cs) ls))"

definition classified :: "string list \<Rightarrow> symbols" where
  "classified ls =
     \<lparr>undef_sym_cnt = class_count ''uU'' ls, undef_sym_size = class_size ''uU'' ls,
      data_sym_cnt = class_count ''bBrRdD'' ls, data_sym_size = class_size ''bBrRdD'' ls,
      code_sym_cnt = class_count ''tT'' ls, code_sym_size = class_size ''tT'' ls\<rparr>"

text \<open>The lines a symbol dump may hold: those that match, with one of the ten type characters.\<close>

definition known_line :: "string \<Rightarrow> bool" where
  "known_line l = has_type ''uUbBrRdDtT'' l"

text \<open>
  A toolchain to run the engine on: the compiler and \<^verbatim>\<open>nm\<close> succeed, the preprocessed
  target has the lines \<open>ls\<close>, \<^verbatim>\<open>nm\<close> prints the lines \<open>dump\<close>, and every timed run takes
  one second. \<open>reported f tc\<close> is the field \<open>f\<close> of the record that the engine returns on
  \<open>tc\<close>, if it returns one.
\<close>

definition quiet_toolchain :: "string list \<Rightarrow> string list \<Rightarrow> toolchain" where
  "quiet_toolchain ls dump =
     \<lparr>run_preproc = Some ls, run_compile = Some 1024, run_nm = Some dump,
      run_compile_baseline = Some 512,
      call_preproc = steady 1, call_compile = steady 1,
      call_preproc_baseline = steady 1, call_compile_baseline = steady 1\<rparr>"

definition reported :: "(metrics \<Rightarrow> 'a) \<Rightarrow> toolchain \<Rightarrow> 'a option" where
  "reported f tc = (case analyze tc of Inl e \<Rightarrow> None | Inr m \<Rightarrow> Some (f m))"

section \<open>The orchestrator: execute-jobs.py\<close>

text \<open>
  A job of the jobs file has the fields \<^verbatim>\<open>file\<close>, \<^verbatim>\<open>compiler\<close> and \<^verbatim>\<open>args\<close>, two strings
  and a list of strings. The job written to the result file has three more: \<^verbatim>\<open>id\<close>,
  \<^verbatim>\<open>argstr\<close>, and the measurements, which the script copies key by key from the
  dictionary \<^verbatim>\<open>res\<close> and the model keeps as one field of any type \<open>'m\<close> (the keys of
  \<^verbatim>\<open>res\<close> are those of the engine and differ from the five others). The fields
  \<open>job_file\<close> and \<open>job_id\<close> are the keys \<^verbatim>\<open>file\<close> and \<^verbatim>\<open>id\<close>.
\<close>

record job =
  job_file :: string
  compiler :: string
  args :: "string list"

record 'm enriched_job = job +
  job_id :: nat
  argstr :: string
  res :: 'm

text \<open>\<open>join sep xs\<close> is Python's \<^verbatim>\<open>sep.join(xs)\<close>.\<close>

fun join :: "string \<Rightarrow> string list \<Rightarrow> string" where
  "join sep [] = []"
| "join sep [x] = x"
| "join sep (x # y # ys) = x @ sep @ join sep (y # ys)"

text \<open>
  \<^verbatim>\<open>
  id = []
  id.append(j["file"])
  id.append(j["compiler"])
  id += j["args"]
  id = ":".join(id)
  \<close>
\<close>

definition cache_key :: "job \<Rightarrow> string" where
  "cache_key j = join '':'' ([job_file j, compiler j] @ args j)"

text \<open>
  The state of the script between two jobs: the dictionary \<^verbatim>\<open>job_cache\<close>, the content of
  the cache file (\<open>None\<close> while the file does not exist), the counters \<^verbatim>\<open>found_cached\<close>
  and \<^verbatim>\<open>idx\<close>, and the jobs finished so far. \<open>invoked\<close> is not a variable of the script:
  it counts the calls of \<^verbatim>\<open>subprocess.check_output(sargs)\<close>, the runs of the engine.
\<close>

record 'm state =
  job_cache :: "string \<rightharpoonup> 'm"
  cache_file :: "(string \<rightharpoonup> 'm) option"
  found_cached :: nat
  idx :: nat
  done_jobs :: "'m enriched_job list"
  invoked :: nat

text \<open>
  The engine is an external process: \<open>engine k j\<close> is what its run number \<open>k\<close> (counted
  from 0) answers for the job \<open>j\<close>, the decoded dictionary or the exception raised by
  \<^verbatim>\<open>check_output\<close> or \<^verbatim>\<open>json.loads\<close>. Nothing says that two runs on one job agree.
\<close>

type_synonym 'm engine = "nat \<Rightarrow> job \<Rightarrow> error + 'm"

text \<open>
  \<^verbatim>\<open>
  job_cache = {}
  if os.path.exists(cache_file):
      with open(cache_file, "r") as f:
          job_cache = json.load(f)
  found_cached = 0
  idx = 0
  \<close>
\<close>

definition initial :: "(string \<rightharpoonup> 'm) option \<Rightarrow> 'm state" where
  "initial disk =
     \<lparr>job_cache = (case disk of None \<Rightarrow> Map.empty | Some c \<Rightarrow> c),
      cache_file = disk, found_cached = 0, idx = 0, done_jobs = [], invoked = 0\<rparr>"

text \<open>
  \<^verbatim>\<open>
  j["id"] = idx
  j["argstr"] = " ".join(j["args"])
  for k in res:
      j[k] = res[k]
  idx += 1
  \<close>
\<close>

definition merge :: "'m state \<Rightarrow> job \<Rightarrow> 'm \<Rightarrow> 'm state" where
  "merge st j r =
     st\<lparr>done_jobs := done_jobs st @
           [\<lparr>job_file = job_file j, compiler = compiler j, args = args j,
             job_id = idx st, argstr = join '' '' (args j), res = r\<rparr>],
        idx := idx st + 1\<rparr>"

text \<open>
  The body of \<^verbatim>\<open>for j in jobs\<close>:
  \<^verbatim>\<open>
  if id in job_cache:
      res = job_cache[id]
      found_cached += 1
  else:
      sargs = [analyzer_script, "-c", j["compiler"], "-d", args.dir, j["file"], "--"] + j["args"]
      res = subprocess.check_output(sargs).decode("utf-8")
      res = json.loads(res)
      job_cache[id] = res

      # write cache
      with open(cache_file, "w") as f:
          json.dump(job_cache, f, indent=4)
  \<close>
  An exception ends the script; the result then holds the state in which it was raised.
\<close>

definition process_job :: "'m engine \<Rightarrow> 'm state \<Rightarrow> job \<Rightarrow> (error \<times> 'm state) + 'm state" where
  "process_job engine st j =
     (case job_cache st (cache_key j) of
        Some r \<Rightarrow> Inr (merge (st\<lparr>found_cached := found_cached st + 1\<rparr>) j r)
      | None \<Rightarrow>
          (case engine (invoked st) j of
             Inl e \<Rightarrow> Inl (e, st\<lparr>invoked := invoked st + 1\<rparr>)
           | Inr r \<Rightarrow>
               Inr (merge (st\<lparr>job_cache := (job_cache st)(cache_key j \<mapsto> r),
                               cache_file := Some ((job_cache st)(cache_key j \<mapsto> r)),
                               invoked := invoked st + 1\<rparr>) j r)))"

fun run :: "'m engine \<Rightarrow> 'm state \<Rightarrow> job list \<Rightarrow> (error \<times> 'm state) + 'm state" where
  "run engine st [] = Inr st"
| "run engine st (j # js) =
     (case process_job engine st j of
        Inl failure \<Rightarrow> Inl failure
      | Inr st' \<Rightarrow> run engine st' js)"

definition execute_jobs ::
    "'m engine \<Rightarrow> (string \<rightharpoonup> 'm) option \<Rightarrow> job list \<Rightarrow> (error \<times> 'm state) + 'm state" where
  "execute_jobs engine disk jobs = run engine (initial disk) jobs"



text \<open>A string without the separator of the cache key, and a job made of such strings.\<close>

definition colon_free :: "string \<Rightarrow> bool" where
  "colon_free x = (CHR '':'' \<notin> set x)"

definition plain_job :: "job \<Rightarrow> bool" where
  "plain_job j = (colon_free (job_file j) \<and> colon_free (compiler j) \<and> list_all colon_free (args j))"

text \<open>
  An engine to run the orchestrator on: its run number \<open>k\<close> answers \<open>k\<close>, so that no two
  of its runs agree. Two jobs, \<open>job_a\<close> and \<open>job_b\<close>, that differ in their arguments.
\<close>

definition counting_engine :: "nat engine" where
  "counting_engine k j = Inr k"

definition job_a :: job where
  "job_a = \<lparr>job_file = ''a.hh'', compiler = ''/usr/bin/g++'', args = [''-O2'']\<rparr>"

definition job_b :: job where
  "job_b = \<lparr>job_file = ''a.hh'', compiler = ''/usr/bin/g++'', args = [''-O0'']\<rparr>"

section \<open>Properties of the timing sampler\<close>

text \<open>
  The float test as a test on the exact quotient. The float \<^verbatim>\<open>1.01\<close> has an odd
  significand, so the quotients rounded below it are those up to the middle between it and
  the float before it, the middle included: \<open>9097271247288401 / 2 ^ 53\<close>, which is
  \<open>1.01 - 2.2e-17\<close> or so.
\<close>

lemma round_half_even_less_odd:
  assumes "odd c"
  shows "round_half_even q < c \<longleftrightarrow> q \<le> of_int c - 1 / 2"
proof -
  define f where "f = \<lfloor>q\<rfloor>"
  define d where "d = q - of_int f"
  have q: "q = of_int f + d" by (simp add: d_def)
  have d: "0 \<le> d" "d < 1"
    unfolding d_def f_def by linarith+
  have r: "round_half_even q =
      (if d < 1 / 2 then f else if 1 / 2 < d then f + 1 else if even f then f else f + 1)"
    unfolding round_half_even_def d_def f_def ..
  have up: "f < g \<Longrightarrow> (of_int f :: rat) + 1 \<le> of_int g" for g
  proof -
    assume "f < g"
    then have "f + 1 \<le> g" by linarith
    then have "(of_int (f + 1) :: rat) \<le> of_int g" by (simp only: of_int_le_iff)
    then show ?thesis by simp
  qed
  have down: "(of_int f :: rat) < of_int g \<Longrightarrow> f < g" for g
    by (simp only: of_int_less_iff)
  consider "d < 1 / 2" | "1 / 2 < d" | "d = 1 / 2" "even f" | "d = 1 / 2" "odd f"
    by fastforce
  then have "round_half_even q < c \<longleftrightarrow> of_int f + d \<le> of_int c - 1 / 2"
  proof cases
    case 1
    then have v: "round_half_even q = f" by (simp add: r)
    have "f < c \<longleftrightarrow> of_int f + d \<le> of_int c - 1 / 2"
    proof
      assume "f < c"
      from up [OF this] 1 show "of_int f + d \<le> of_int c - 1 / 2" by linarith
    next
      assume "of_int f + d \<le> of_int c - 1 / 2"
      with d(1) have "(of_int f :: rat) < of_int c" by linarith
      then show "f < c" by (rule down)
    qed
    then show ?thesis unfolding v .
  next
    case 2
    then have v: "round_half_even q = f + 1" by (simp add: r)
    have "f + 1 < c \<longleftrightarrow> of_int f + d \<le> of_int c - 1 / 2"
    proof
      assume "f + 1 < c"
      then have "f < c - 1" by linarith
      from up [OF this] d(2) show "of_int f + d \<le> of_int c - 1 / 2" by simp
    next
      assume "of_int f + d \<le> of_int c - 1 / 2"
      with 2 have "(of_int f :: rat) < of_int c - 1" by linarith
      then have "(of_int f :: rat) < of_int (c - 1)" by simp
      then have "f < c - 1" by (rule down)
      then show "f + 1 < c" by linarith
    qed
    then show ?thesis unfolding v .
  next
    case 3
    then have v: "round_half_even q = f" by (simp add: r)
    have "f < c \<longleftrightarrow> of_int f + d \<le> of_int c - 1 / 2"
    proof
      assume "f < c"
      from up [OF this] 3(1) show "of_int f + d \<le> of_int c - 1 / 2" by linarith
    next
      assume "of_int f + d \<le> of_int c - 1 / 2"
      with 3(1) have "(of_int f :: rat) < of_int c" by linarith
      then show "f < c" by (rule down)
    qed
    then show ?thesis unfolding v .
  next
    case 4
    then have v: "round_half_even q = f + 1" by (simp add: r)
    from 4(2) assms have n: "f \<noteq> c - 1" by auto
    have "f + 1 < c \<longleftrightarrow> of_int f + d \<le> of_int c - 1 / 2"
    proof
      assume "f + 1 < c"
      then have "f < c" by linarith
      from up [OF this] 4(1) show "of_int f + d \<le> of_int c - 1 / 2" by linarith
    next
      assume "of_int f + d \<le> of_int c - 1 / 2"
      with 4(1) have "(of_int f :: rat) < of_int c" by linarith
      then have "f < c" by (rule down)
      with n show "f + 1 < c" by linarith
    qed
    then show ?thesis unfolding v .
  qed
  then show ?thesis
    unfolding q [symmetric] .
qed

lemma float_quotient_below_iff:
  "float_quotient_below x y \<longleftrightarrow> x / y \<le> 9097271247288401 / 2 ^ 53"
proof -
  define r where "r = x / y"
  have o: "odd (4548635623644201 :: int)" by simp
  have t: "1 < (9097271247288401 / 2 ^ 53 :: rat)" "(9097271247288401 / 2 ^ 53 :: rat) < 2"
    by simp_all
  have "round_half_even (r * 2 ^ 52) < 4548635623644201
      \<longleftrightarrow> r * 2 ^ 52 \<le> of_int 4548635623644201 - 1 / 2"
    by (rule round_half_even_less_odd [OF o])
  also have "\<dots> \<longleftrightarrow> r \<le> (of_int 4548635623644201 - 1 / 2) / 2 ^ 52"
    by (rule pos_le_divide_eq [symmetric]) simp
  also have "((of_int 4548635623644201 - 1 / 2) / 2 ^ 52 :: rat) = 9097271247288401 / 2 ^ 53"
    by simp
  finally have m: "round_half_even (r * 2 ^ 52) < 4548635623644201
      \<longleftrightarrow> r \<le> 9097271247288401 / 2 ^ 53" .
  have "float_quotient_below x y =
      (if r < 1 then True else if 2 \<le> r then False
       else round_half_even (r * 2 ^ 52) < 4548635623644201)"
    unfolding float_quotient_below_def r_def ..
  also have "\<dots> \<longleftrightarrow> r \<le> 9097271247288401 / 2 ^ 53"
  proof (cases "r < 1")
    case True
    with t(1) have "r \<le> 9097271247288401 / 2 ^ 53" by linarith
    with True show ?thesis by (simp only: if_True)
  next
    case False
    show ?thesis
    proof (cases "2 \<le> r")
      case True
      with t(2) have "\<not> r \<le> 9097271247288401 / 2 ^ 53" by linarith
      with True \<open>\<not> r < 1\<close> show ?thesis by (simp only: if_True if_False)
    next
      case False
      with \<open>\<not> r < 1\<close> show ?thesis by (simp only: if_False m)
    qed
  qed
  finally show ?thesis
    unfolding r_def .
qed

text \<open>The five ways through one round of the loop.\<close>

lemma loop_full: "length ts > 20 \<Longrightarrow> measure_time_loop sargs n ts = (n, ts, None)"
  by (simp add: measure_time_loop.simps)

lemma loop_few:
  "length ts < 8 \<Longrightarrow>
     measure_time_loop sargs n ts = measure_time_loop sargs (Suc n) (ts @ [sargs n])"
  by (simp add: measure_time_loop.simps [of sargs n ts])

lemma loop_zero:
  "8 \<le> length ts \<Longrightarrow> length ts \<le> 20 \<Longrightarrow> sort ts ! 0 = 0 \<Longrightarrow>
     measure_time_loop sargs n ts = (n, sort ts, Some ZeroDivisionError)"
  by (simp add: measure_time_loop.simps [of sargs n ts])

lemma loop_stop:
  "8 \<le> length ts \<Longrightarrow> length ts \<le> 20 \<Longrightarrow> ratio_below ts \<Longrightarrow>
     measure_time_loop sargs n ts = (n, sort ts, None)"
  by (simp add: measure_time_loop.simps [of sargs n ts] ratio_below_def)

lemma loop_more:
  "8 \<le> length ts \<Longrightarrow> length ts \<le> 20 \<Longrightarrow> sort ts ! 0 \<noteq> 0 \<Longrightarrow> \<not> ratio_below ts \<Longrightarrow>
     measure_time_loop sargs n ts = measure_time_loop sargs (Suc n) (sort ts @ [sargs n])"
  by (simp add: measure_time_loop.simps [of sargs n ts] ratio_below_def)

lemma loop_cases [consumes 1, case_names full few zero stop more]:
  assumes "measure_time_loop sargs n ts = r"
    and "\<lbrakk>length ts > 20; r = (n, ts, None)\<rbrakk> \<Longrightarrow> P"
    and "\<lbrakk>length ts < 8; measure_time_loop sargs (Suc n) (ts @ [sargs n]) = r\<rbrakk> \<Longrightarrow> P"
    and "\<lbrakk>8 \<le> length ts; length ts \<le> 20; sort ts ! 0 = 0;
          r = (n, sort ts, Some ZeroDivisionError)\<rbrakk> \<Longrightarrow> P"
    and "\<lbrakk>8 \<le> length ts; length ts \<le> 20; ratio_below ts; r = (n, sort ts, None)\<rbrakk> \<Longrightarrow> P"
    and "\<lbrakk>8 \<le> length ts; length ts \<le> 20; sort ts ! 0 \<noteq> 0; \<not> ratio_below ts;
          measure_time_loop sargs (Suc n) (sort ts @ [sargs n]) = r\<rbrakk> \<Longrightarrow> P"
  shows P
proof -
  consider "length ts > 20" | "length ts < 8"
    | "8 \<le> length ts" "length ts \<le> 20" "sort ts ! 0 = 0"
    | "8 \<le> length ts" "length ts \<le> 20" "ratio_below ts"
    | "8 \<le> length ts" "length ts \<le> 20" "sort ts ! 0 \<noteq> 0" "\<not> ratio_below ts"
    by (cases "length ts > 20"; cases "length ts < 8"; cases "sort ts ! 0 = 0";
        cases "ratio_below ts") auto
  then show P
  proof cases
    case 1 with assms(1,2) show P by (simp add: loop_full)
  next
    case 2 with assms(1,3) show P by (simp add: loop_few)
  next
    case 3 with assms(1,4) show P by (simp add: loop_zero)
  next
    case 4 with assms(1,5) show P by (simp add: loop_stop)
  next
    case 5 with assms(1,6) show P by (simp add: loop_more)
  qed
qed

text \<open>
  What a finished loop has done: it ran the process \<open>n' - n\<close> times and added exactly the
  durations of these runs to the samples, it holds 8 samples at least and 21 at most, and
  the only exception is the division by a smallest sample that is zero.
\<close>

lemma loop_result:
  "measure_time_loop sargs n ts = (n', ts', e) \<Longrightarrow>
     n \<le> n' \<and> mset ts' = mset ts + mset (map sargs [n ..< n']) \<and> 8 \<le> length ts'
     \<and> (length ts \<le> 21 \<longrightarrow> length ts' \<le> 21)
     \<and> (case e of None \<Rightarrow> True | Some x \<Rightarrow> x = ZeroDivisionError \<and> sort ts' ! 0 = 0)"
proof (induction sargs n ts rule: measure_time_loop.induct)
  case (1 sargs n ts)
  from "1.prems" show ?case
  proof (cases rule: loop_cases)
    case full
    then show ?thesis by simp
  next
    case few
    then have "\<not> 20 < length ts" "\<not> 8 \<le> length ts" by simp_all
    from "1.IH"(2) [OF this few(2)] few(1) show ?thesis
      by (auto simp: upt_conv_Cons)
  next
    case zero
    then show ?thesis by (simp add: sorted_sort_id)
  next
    case stop
    then show ?thesis by simp
  next
    case more
    then have "\<not> 20 < length ts" "\<not> sort ts ! 0 = 0"
        "\<not> float_quotient_below (sort ts ! 3) (sort ts ! 0)"
      by (simp_all add: ratio_below_def)
    from "1.IH"(1) [OF this(1) more(1) this(2,3) more(5)] more(2) show ?thesis
      by (auto simp: upt_conv_Cons)
  qed
qed


lemma sort_nth_0: "xs \<noteq> [] \<Longrightarrow> sort xs ! 0 = Min (set xs)"
proof -
  assume ne: "xs \<noteq> []"
  then obtain y ys where ys: "sort xs = y # ys"
    by (cases "sort xs") (auto dest: arg_cong [of _ _ length])
  have "sorted (y # ys)" "set (y # ys) = set xs"
    using ys [symmetric] by simp_all
  then have "Min (set xs) = y"
    by (intro Min_eqI) auto
  with ys show ?thesis by simp
qed

text \<open>The whole function, from the empty list of samples.\<close>

lemma measure_time_run:
  obtains ts e where
    "measure_time_loop sargs 0 [] = (executions sargs, ts, e)"
    "mset ts = mset (observed sargs)"
    "length ts = executions sargs"
    "8 \<le> executions sargs" "executions sargs \<le> 21"
    "e = None \<or> (e = Some ZeroDivisionError \<and> Min (set (observed sargs)) = 0)"
proof -
  obtain n ts e where r: "measure_time_loop sargs 0 [] = (n, ts, e)"
    by (cases "measure_time_loop sargs 0 []") auto
  then have n: "executions sargs = n"
    by (simp add: executions_def)
  from loop_result [OF r] have m: "mset ts = mset (map sargs [0 ..< n])"
    and b: "8 \<le> length ts" "length ts \<le> 21"
    and z: "case e of None \<Rightarrow> True | Some x \<Rightarrow> x = ZeroDivisionError \<and> sort ts ! 0 = 0"
    by simp_all
  from mset_eq_length [OF m] have l: "length ts = n" by simp
  have s: "set ts = set (observed sargs)"
    using mset_eq_setD [OF m] by (simp add: observed_def n)
  have "ts \<noteq> []" using b by auto
  then have "sort ts ! 0 = Min (set (observed sargs))"
    by (simp add: sort_nth_0 s)
  with z have "e = None \<or> (e = Some ZeroDivisionError \<and> Min (set (observed sargs)) = 0)"
    by (cases e) auto
  with r m b l n that show thesis
    by (simp add: observed_def)
qed

lemma executions_at_most_21: "executions sargs \<le> 21"
  by (rule measure_time_run [of sargs])

text \<open>
  At the threshold the rounding decides. The floats \<^verbatim>\<open>3.03\<close> and \<^verbatim>\<open>3.0\<close> have an exact
  quotient below 1.01, which is rounded to the float \<^verbatim>\<open>1.01\<close>: the test fails, by the
  definition and by the lemma, and the sampler goes on to 21 executions.
\<close>

lemma threshold_rounding:
  "round_half_even (6822953435466301 / 2 ^ 51 / 3 * 2 ^ 52) = 4548635623644201"
  "\<not> float_quotient_below (6822953435466301 / 2 ^ 51) 3"
  "(6822953435466301 / 2 ^ 51 / 3 :: rat) < 101 / 100"
proof -
  have f: "\<lfloor>13645906870932602 / 3 :: rat\<rfloor> = 4548635623644200"
    by (rule floor_unique) simp_all
  show "round_half_even (6822953435466301 / 2 ^ 51 / 3 * 2 ^ 52) = 4548635623644201"
    by (simp add: round_half_even_def f)
  show "\<not> float_quotient_below (6822953435466301 / 2 ^ 51) 3"
    by (simp add: float_quotient_below_iff)
  show "(6822953435466301 / 2 ^ 51 / 3 :: rat) < 101 / 100"
    by simp
qed

lemma near_threshold_executions: "executions near_threshold = 21"
  unfolding executions_def
  by (simp add: measure_time_loop.simps near_threshold_def float_quotient_below_iff)


text \<open>
  Claim C1. The sampler terminates (\<open>measure_time_loop\<close> is a total function, its
  termination is proved with the measure \<open>21 - length ts\<close>), but the bound of 20 timed
  executions does not hold: the loop leaves when \<^verbatim>\<open>len(ts) > 20\<close>, after the 21st run. An
  invocation whose run number \<open>k\<close> takes \<open>k + 1\<close> seconds never passes the early-stop test
  and is executed 21 times.
\<close>

theorem measure_time_21_executions: "executions slowing = 21"
  unfolding executions_def
  by (simp add: measure_time_loop.simps slowing_def float_quotient_below_iff)

text \<open>
  Claim C10. Whatever the durations are, when the loop of the sampler ends (with a value
  or with the division by zero) it holds one sample for each execution it has made, the
  durations of the executions number 0 to \<open>executions sargs - 1\<close>, and these are 8 at
  least: the early-stop test is behind \<^verbatim>\<open>len(ts) >= 8\<close>, and with fewer samples the
  loop always runs the invocation again.
\<close>

theorem at_least_8_executions:
  "\<exists>ts e. measure_time_loop sargs 0 [] = (executions sargs, ts, e)
      \<and> mset ts = mset (map sargs [0 ..< executions sargs])
      \<and> length ts = executions sargs
      \<and> 8 \<le> length ts"
proof -
  obtain ts e where "measure_time_loop sargs 0 [] = (executions sargs, ts, e)"
    "mset ts = mset (observed sargs)" "length ts = executions sargs" "8 \<le> executions sargs"
    by (rule measure_time_run [of sargs])
  then show ?thesis
    unfolding observed_def by auto
qed



section \<open>Properties of the line counts\<close>

lemma prog_search_iff: "prog_search l \<longleftrightarrow> (\<exists>c \<in> set l. alnum_underscore c)"
  by (simp add: prog_search_def list_ex_iff)

lemma line_cnt_loop_eq:
  "line_cnt_loop ls (a, b) = (a + int (length ls), b + int (length (filter prog_search ls)))"
  by (induction ls arbitrary: a b) simp_all

lemma line_counts_eq:
  "line_counts ls = (int (length ls) - 2, int (length (filter prog_search ls)) - 1)"
  by (simp add: line_counts_def line_cnt_loop_eq)

section \<open>Properties of the symbol classification\<close>

lemma symbol_loop_cases [consumes 0, case_names parse undef data code unknown]:
  assumes "prog_match l = None \<Longrightarrow> P"
    and "\<And>st sn. \<lbrakk>prog_match l = Some (st, sn); st \<in> set ''uU''\<rbrakk> \<Longrightarrow> P"
    and "\<And>st sn. \<lbrakk>prog_match l = Some (st, sn); st \<notin> set ''uU''; st \<in> set ''bBrRdD''\<rbrakk> \<Longrightarrow> P"
    and "\<And>st sn. \<lbrakk>prog_match l = Some (st, sn); st \<notin> set ''uU''; st \<notin> set ''bBrRdD'';
           st \<in> set ''tT''\<rbrakk> \<Longrightarrow> P"
    and "\<And>st sn. \<lbrakk>prog_match l = Some (st, sn); st \<notin> set ''uU''; st \<notin> set ''bBrRdD'';
           st \<notin> set ''tT''\<rbrakk> \<Longrightarrow> P"
  shows P
proof (cases "prog_match l")
  case None
  then show P by (rule assms(1))
next
  case (Some p)
  obtain st sn where p: "p = (st, sn)" by (cases p)
  with Some have m: "prog_match l = Some (st, sn)" by simp
  show P
  proof (cases "st \<in> set ''uU''")
    case True
    with m show P by (rule assms(2))
  next
    case u: False
    show P
    proof (cases "st \<in> set ''bBrRdD''")
      case True
      with m u show P by (rule assms(3))
    next
      case d: False
      show P
      proof (cases "st \<in> set ''tT''")
        case True
        with m u d show P by (rule assms(4))
      next
        case False
        with m u d show P by (rule assms(5))
      qed
    qed
  qed
qed

lemma known_line_iff:
  "known_line l \<longleftrightarrow> has_type ''uU'' l \<or> has_type ''bBrRdD'' l \<or> has_type ''tT'' l"
  by (auto simp: known_line_def has_type_def split: option.splits)

text \<open>On known lines the loop adds the counts of the grammar to its counters.\<close>

lemma symbol_loop_known:
  "\<forall>l \<in> set ls. known_line l \<Longrightarrow>
     symbol_loop ls s =
       Inr \<lparr>undef_sym_cnt = undef_sym_cnt s + class_count ''uU'' ls,
            undef_sym_size = undef_sym_size s + class_size ''uU'' ls,
            data_sym_cnt = data_sym_cnt s + class_count ''bBrRdD'' ls,
            data_sym_size = data_sym_size s + class_size ''bBrRdD'' ls,
            code_sym_cnt = code_sym_cnt s + class_count ''tT'' ls,
            code_sym_size = code_sym_size s + class_size ''tT'' ls\<rparr>"
proof (induction ls arbitrary: s)
  case Nil
  show ?case by (simp add: class_count_def class_size_def)
next
  case (Cons l ls)
  then have rest: "\<forall>l \<in> set ls. known_line l" and l: "known_line l"
    by simp_all
  note IH = Cons.IH [OF rest]
  show ?case
  proof (cases l rule: symbol_loop_cases)
    case parse
    with l show ?thesis by (simp add: known_line_def has_type_def)
  next
    case (undef st sn)
    then have "has_type ''uU'' l" "\<not> has_type ''bBrRdD'' l" "\<not> has_type ''tT'' l"
        "name_length l = int (length sn)"
      by (auto simp: has_type_def name_length_def)
    with undef show ?thesis
      by (simp add: IH class_count_def class_size_def)
  next
    case (data st sn)
    then have "\<not> has_type ''uU'' l" "has_type ''bBrRdD'' l" "\<not> has_type ''tT'' l"
        "name_length l = int (length sn)"
      by (auto simp: has_type_def name_length_def)
    with data show ?thesis
      by (simp add: IH class_count_def class_size_def)
  next
    case (code st sn)
    then have "\<not> has_type ''uU'' l" "\<not> has_type ''bBrRdD'' l" "has_type ''tT'' l"
        "name_length l = int (length sn)"
      by (auto simp: has_type_def name_length_def)
    with code show ?thesis
      by (simp add: IH class_count_def class_size_def)
  next
    case (unknown st sn)
    then have "\<not> known_line l"
      by (simp add: known_line_iff has_type_def)
    with l show ?thesis by simp
  qed
qed

text \<open>A line that is not known stops the loop with a failed assertion.\<close>

lemma symbol_loop_unknown:
  "\<exists>l \<in> set ls. \<not> known_line l \<Longrightarrow> \<exists>msg. symbol_loop ls s = Inl (AssertionError msg)"
proof (induction ls arbitrary: s)
  case Nil
  then show ?case by simp
next
  case (Cons l ls)
  show ?case
  proof (cases l rule: symbol_loop_cases)
    case parse
    then show ?thesis by simp
  next
    case (undef st sn)
    then have "known_line l" by (simp add: known_line_iff has_type_def)
    with Cons.prems have "\<exists>l \<in> set ls. \<not> known_line l" by simp
    from Cons.IH [OF this] undef show ?thesis by simp
  next
    case (data st sn)
    then have "known_line l" by (simp add: known_line_iff has_type_def)
    with Cons.prems have "\<exists>l \<in> set ls. \<not> known_line l" by simp
    from Cons.IH [OF this] data show ?thesis by simp
  next
    case (code st sn)
    then have "known_line l" by (simp add: known_line_iff has_type_def)
    with Cons.prems have "\<exists>l \<in> set ls. \<not> known_line l" by simp
    from Cons.IH [OF this] code show ?thesis by simp
  next
    case (unknown st sn)
    then show ?thesis by simp
  qed
qed

lemma count_symbols_known:
  "\<forall>l \<in> set dump. known_line l \<Longrightarrow> count_symbols dump = Inr (classified dump)"
  by (simp add: count_symbols_def symbol_loop_known no_symbols_def classified_def)

lemma count_symbols_success:
  assumes "count_symbols dump = Inr s"
  shows "\<forall>l \<in> set dump. known_line l" and "s = classified dump"
proof -
  show k: "\<forall>l \<in> set dump. known_line l"
  proof (rule ccontr)
    assume "\<not> (\<forall>l \<in> set dump. known_line l)"
    then have "\<exists>l \<in> set dump. \<not> known_line l" by simp
    from symbol_loop_unknown [OF this, of no_symbols] assms show False
      by (auto simp: count_symbols_def)
  qed
  from count_symbols_known [OF k] assms show "s = classified dump" by simp
qed

lemma class_count_nonneg: "0 \<le> class_count cs ls"
  by (simp add: class_count_def)

section \<open>Properties of the measurement engine\<close>

text \<open>A run of the engine that returns has passed every step, and reports what the steps gave.\<close>

lemma analyze_success:
  assumes "analyze tc = Inr m"
  obtains ls dump s where
    "run_preproc tc = Some ls" "run_nm tc = Some dump" "count_symbols dump = Inr s"
    "line_count_raw m = fst (line_counts ls)" "line_count m = snd (line_counts ls)"
    "undefined_symbol_count m = undef_sym_cnt s" "undefined_symbol_size m = undef_sym_size s"
    "data_symbol_count m = data_sym_cnt s" "data_symbol_size m = data_sym_size s"
    "code_symbol_count m = code_sym_cnt s" "code_symbol_size m = code_sym_size s"
  using assms
  by (auto simp: analyze_def raise_if_none_def or_raise_def split: option.splits sum.splits)

lemma analyze_parse_failure:
  assumes "run_preproc tc = Some ls" "run_compile tc = Some osize" "run_nm tc = Some dump"
    and "count_symbols dump = Inl e"
  shows "analyze tc = Inl e"
  using assms by (simp add: analyze_def raise_if_none_def or_raise_def)

lemma measure_time_steady_1: "measure_time (steady 1) = Inr 1"
  by (simp add: measure_time_def measure_time_loop.simps steady_def float_quotient_below_iff)

lemma analyze_quiet:
  "analyze (quiet_toolchain ls dump) =
     (case count_symbols dump of
        Inl e \<Rightarrow> Inl e
      | Inr s \<Rightarrow>
          Inr \<lparr>line_count_raw = fst (line_counts ls), line_count = snd (line_counts ls),
               object_size = 1024,
               undefined_symbol_count = undef_sym_cnt s, undefined_symbol_size = undef_sym_size s,
               data_symbol_count = data_sym_cnt s, data_symbol_size = data_sym_size s,
               code_symbol_count = code_sym_cnt s, code_symbol_size = code_sym_size s,
               object_size_base = 512,
               preprocessing_time = 1, compile_time = 1,
               preprocessing_time_base = 1, compile_time_base = 1\<rparr>)"
  by (simp add: analyze_def quiet_toolchain_def raise_if_none_def or_raise_def
      measure_time_steady_1 split: sum.splits)

lemmas char_class_defs =
  in_range_def ascii_alnum_def alnum_underscore_def word_char_def newline_def

lemmas match_defs = prog_match_def match_name_def char_class_defs

text \<open>
  The lines that \<open>prog_match\<close> accepts are those of the regular expression, and the two
  groups are the type character and the name: a value of ASCII letters and digits, one
  space or more, a word character, a space, a non-empty name without newline, and the end
  of the line or a last newline.
\<close>

lemma match_name_iff:
  "match_name r = Some sn \<longleftrightarrow>
     sn \<noteq> [] \<and> newline \<notin> set sn \<and> (r = sn \<or> r = sn @ [newline])"
proof
  assume m: "match_name r = Some sn"
  define a where "a = takeWhile (\<lambda>c. c \<noteq> newline) r"
  define b where "b = dropWhile (\<lambda>c. c \<noteq> newline) r"
  have r: "r = a @ b" by (simp add: a_def b_def)
  have na: "newline \<notin> set a"
    unfolding a_def by (auto dest: set_takeWhileD)
  have "match_name r = (if a \<noteq> [] \<and> (b = [] \<or> b = [newline]) then Some a else None)"
    unfolding match_name_def Let_def a_def b_def ..
  with m have "sn = a" "a \<noteq> []" "b = [] \<or> b = [newline]"
    by (simp_all split: if_splits)
  with r na show "sn \<noteq> [] \<and> newline \<notin> set sn \<and> (r = sn \<or> r = sn @ [newline])"
    by auto
next
  assume a: "sn \<noteq> [] \<and> newline \<notin> set sn \<and> (r = sn \<or> r = sn @ [newline])"
  then have all: "\<And>c. c \<in> set sn \<Longrightarrow> c \<noteq> newline" by auto
  from a consider "r = sn" | "r = sn @ [newline]" by auto
  then have "takeWhile (\<lambda>c. c \<noteq> newline) r = sn
      \<and> (dropWhile (\<lambda>c. c \<noteq> newline) r = [] \<or> dropWhile (\<lambda>c. c \<noteq> newline) r = [newline])"
  proof cases
    case 1
    with all show ?thesis by simp
  next
    case 2
    have "takeWhile (\<lambda>c. c \<noteq> newline) (sn @ [newline]) = sn"
      using all by (subst takeWhile_append2) simp_all
    moreover have "dropWhile (\<lambda>c. c \<noteq> newline) (sn @ [newline]) = [newline]"
      using all by (subst dropWhile_append2) simp_all
    ultimately show ?thesis using 2 by simp
  qed
  with a show "match_name r = Some sn"
    unfolding match_name_def Let_def by auto
qed

lemma space_classes: "\<not> ascii_alnum (CHR '' '')" "\<not> word_char (CHR '' '')"
  by (simp_all add: char_class_defs)

lemma match_tail:
  "(case r2 of
      a # sep # r3 \<Rightarrow>
        if word_char a \<and> sep = CHR '' ''
        then (case match_name r3 of None \<Rightarrow> None | Some n \<Rightarrow> Some (a, n))
        else None
    | _ \<Rightarrow> None) = Some (st, sn)
   \<longleftrightarrow> word_char st \<and> (\<exists>r3. r2 = st # CHR '' '' # r3 \<and> match_name r3 = Some sn)"
  by (auto split: list.splits if_splits option.splits)

lemma prog_match_steps:
  "prog_match l = Some (st, sn) \<longleftrightarrow>
     takeWhile (\<lambda>c. c = CHR '' '') (dropWhile ascii_alnum l) \<noteq> [] \<and> word_char st
     \<and> (\<exists>r3. dropWhile (\<lambda>c. c = CHR '' '') (dropWhile ascii_alnum l) = st # CHR '' '' # r3
            \<and> match_name r3 = Some sn)"
proof -
  define sp where "sp = takeWhile (\<lambda>c. c = CHR '' '') (dropWhile ascii_alnum l)"
  define r2 where "r2 = dropWhile (\<lambda>c. c = CHR '' '') (dropWhile ascii_alnum l)"
  have "prog_match l =
      (if sp = [] then None
       else (case r2 of
          a # sep # r3 \<Rightarrow>
            if word_char a \<and> sep = CHR '' ''
            then (case match_name r3 of None \<Rightarrow> None | Some n \<Rightarrow> Some (a, n))
            else None
        | _ \<Rightarrow> None))"
    unfolding prog_match_def Let_def sp_def r2_def ..
  then have "prog_match l = Some (st, sn) \<longleftrightarrow>
      sp \<noteq> [] \<and> word_char st \<and> (\<exists>r3. r2 = st # CHR '' '' # r3 \<and> match_name r3 = Some sn)"
    by (simp add: match_tail)
  then show ?thesis
    unfolding sp_def r2_def .
qed

lemma prog_match_iff:
  "prog_match l = Some (st, sn) \<longleftrightarrow>
     (\<exists>v sp e. l = v @ sp @ st # CHR '' '' # sn @ e
        \<and> list_all ascii_alnum v \<and> sp \<noteq> [] \<and> list_all (\<lambda>c. c = CHR '' '') sp
        \<and> word_char st \<and> sn \<noteq> [] \<and> newline \<notin> set sn \<and> (e = [] \<or> e = [newline]))"
proof
  assume "prog_match l = Some (st, sn)"
  define v where "v = takeWhile ascii_alnum l"
  define r1 where "r1 = dropWhile ascii_alnum l"
  define sp where "sp = takeWhile (\<lambda>c. c = CHR '' '') r1"
  define r2 where "r2 = dropWhile (\<lambda>c. c = CHR '' '') r1"
  from \<open>prog_match l = Some (st, sn)\<close> obtain r3 where sp: "sp \<noteq> []" and w: "word_char st"
    and r2: "r2 = st # CHR '' '' # r3" and n: "match_name r3 = Some sn"
    unfolding prog_match_steps sp_def r2_def r1_def by blast
  from n obtain e where e: "r3 = sn @ e" "e = [] \<or> e = [newline]" "sn \<noteq> []" "newline \<notin> set sn"
    unfolding match_name_iff by auto
  have "l = v @ r1" by (simp add: v_def r1_def)
  moreover have "r1 = sp @ r2" by (simp add: sp_def r2_def)
  ultimately have "l = v @ sp @ st # CHR '' '' # sn @ e"
    using r2 e(1) by simp
  moreover have "list_all ascii_alnum v"
    unfolding v_def list_all_iff by (auto dest: set_takeWhileD)
  moreover have "list_all (\<lambda>c. c = CHR '' '') sp"
    unfolding sp_def list_all_iff by (auto dest: set_takeWhileD)
  ultimately show "\<exists>v sp e. l = v @ sp @ st # CHR '' '' # sn @ e
        \<and> list_all ascii_alnum v \<and> sp \<noteq> [] \<and> list_all (\<lambda>c. c = CHR '' '') sp
        \<and> word_char st \<and> sn \<noteq> [] \<and> newline \<notin> set sn \<and> (e = [] \<or> e = [newline])"
    using sp w e(2,3,4) by blast
next
  assume "\<exists>v sp e. l = v @ sp @ st # CHR '' '' # sn @ e
        \<and> list_all ascii_alnum v \<and> sp \<noteq> [] \<and> list_all (\<lambda>c. c = CHR '' '') sp
        \<and> word_char st \<and> sn \<noteq> [] \<and> newline \<notin> set sn \<and> (e = [] \<or> e = [newline])"
  then obtain v sp e where l: "l = v @ sp @ st # CHR '' '' # sn @ e"
    and v: "list_all ascii_alnum v" and sp: "sp \<noteq> []" "list_all (\<lambda>c. c = CHR '' '') sp"
    and w: "word_char st" and sn: "sn \<noteq> []" "newline \<notin> set sn" and e: "e = [] \<or> e = [newline]"
    by blast
  define rest where "rest = st # CHR '' '' # sn @ e"
  from sp obtain sp' where sp': "sp = CHR '' '' # sp'"
    by (cases sp) auto
  from w space_classes(2) have st: "st \<noteq> CHR '' ''"
    by auto
  have "dropWhile ascii_alnum (v @ sp @ rest) = dropWhile ascii_alnum (sp @ rest)"
    using v by (intro dropWhile_append2) (simp add: list_all_iff)
  also have "\<dots> = sp @ rest"
    by (simp add: sp' space_classes(1))
  finally have r1: "dropWhile ascii_alnum l = sp @ rest"
    by (simp add: l rest_def)
  have "takeWhile (\<lambda>c. c = CHR '' '') (sp @ rest) = sp @ takeWhile (\<lambda>c. c = CHR '' '') rest"
    using sp(2) by (intro takeWhile_append2) (simp add: list_all_iff)
  then have tk: "takeWhile (\<lambda>c. c = CHR '' '') (sp @ rest) = sp"
    using st by (simp add: rest_def)
  have "dropWhile (\<lambda>c. c = CHR '' '') (sp @ rest) = dropWhile (\<lambda>c. c = CHR '' '') rest"
    using sp(2) by (intro dropWhile_append2) (simp add: list_all_iff)
  then have dr: "dropWhile (\<lambda>c. c = CHR '' '') (sp @ rest) = st # CHR '' '' # sn @ e"
    using st by (simp add: rest_def)
  have "match_name (sn @ e) = Some sn"
    unfolding match_name_iff using sn e by auto
  with tk dr sp(1) w show "prog_match l = Some (st, sn)"
    unfolding prog_match_steps r1 by simp
qed

lemma example_dump:
  "prog_match ''0000 T foo'' = Some (CHR ''T'', ''foo'')"
  "prog_match ''0000 D bar'' = Some (CHR ''D'', ''bar'')"
  "prog_match ''0000 U baz'' = Some (CHR ''U'', ''baz'')"
  "prog_match ''0000 X qux'' = Some (CHR ''X'', ''qux'')"
  by (simp_all add: match_defs)

lemma example_count:
  "count_symbols [''0000 T foo'', ''0000 D bar'', ''0000 U baz''] =
     Inr \<lparr>undef_sym_cnt = 1, undef_sym_size = 3, data_sym_cnt = 1, data_sym_size = 3,
          code_sym_cnt = 1, code_sym_size = 3\<rparr>"
  by (simp add: count_symbols_def no_symbols_def example_dump)

text \<open>
  Claim C2, as stated: both line counts are the counted lines minus 2. The script
  subtracts 2 from the raw count and 1 from the count of lines with a letter, a digit or an
  underscore (its comments: \<^verbatim>\<open>int main() + #include\<close>, and \<^verbatim>\<open>int main()\<close>). On three
  lines, two of them with such a character, \<^verbatim>\<open>line_count\<close> is 1 and not 0.
\<close>

theorem line_count_minus_2_counterexample:
  "\<not> (line_counts [''int x;'', '''', ''int main() { return 0; }''] =
        (int (length [''int x;'', '''', ''int main() { return 0; }'']) - 2,
         int (length (filter prog_search [''int x;'', '''', ''int main() { return 0; }''])) - 2))"
  by (simp add: line_counts_def prog_search_def char_class_defs)

text \<open>
  Claim C2, amended. For every preprocessed output, \<^verbatim>\<open>line_count_raw\<close> is the number of
  its lines minus 2, and \<^verbatim>\<open>line_count\<close> is the number of its lines that hold a letter, a
  digit or an underscore, minus 1; the engine reports these two numbers.
\<close>

theorem line_counts_subtract_wrapper:
  "line_counts ls = (int (length ls) - 2, int (length (filter prog_search ls)) - 1)
   \<and> (run_preproc tc = Some ls \<and> analyze tc = Inr m \<longrightarrow>
        line_count_raw m = int (length ls) - 2
        \<and> line_count m = int (length (filter prog_search ls)) - 1)"
proof (intro conjI impI)
  show "line_counts ls = (int (length ls) - 2, int (length (filter prog_search ls)) - 1)"
    by (rule line_counts_eq)
next
  assume a: "run_preproc tc = Some ls \<and> analyze tc = Inr m"
  then obtain ls' where "run_preproc tc = Some ls'"
    "line_count_raw m = fst (line_counts ls')" "line_count m = snd (line_counts ls')"
    by (auto elim: analyze_success)
  with a show "line_count_raw m = int (length ls) - 2"
    and "line_count m = int (length (filter prog_search ls)) - 1"
    by (simp_all add: line_counts_eq)
qed

theorem line_counts_subtract_wrapper_witness:
  "reported line_count_raw (quiet_toolchain [''int x;'', '''', ''int main() { return 0; }''] []) = Some 1
   \<and> reported line_count (quiet_toolchain [''int x;'', '''', ''int main() { return 0; }''] []) = Some 1"
proof -
  let ?ls = "[''int x;'', '''', ''int main() { return 0; }'']"
  obtain m where m: "analyze (quiet_toolchain ?ls []) = Inr m"
    by (simp add: analyze_quiet count_symbols_def)
  have p: "run_preproc (quiet_toolchain ?ls []) = Some ?ls"
    by (simp add: quiet_toolchain_def)
  have f: "filter prog_search ?ls = [''int x;'', ''int main() { return 0; }'']"
    by (simp add: prog_search_def char_class_defs)
  from line_counts_subtract_wrapper [of ?ls "quiet_toolchain ?ls []" m] m p
  have "line_count_raw m = 1 \<and> line_count m = 1"
    unfolding f by simp
  with m show ?thesis
    by (simp add: reported_def)
qed

text \<open>
  Claim C5. If every line of the symbol dump matches the grammar with a type character
  among \<open>u U b B r R d D t T\<close>, the classification succeeds, the three counts are the
  numbers of lines whose type character is in \<open>{u,U}\<close>, in \<open>{b,B,r,R,d,D}\<close> and in
  \<open>{t,T}\<close>, each size is the sum of the lengths of the names of the lines of its class,
  and these are the six numbers that the engine reports.
\<close>

theorem symbol_counts_by_class:
  assumes "\<forall>l \<in> set dump. \<exists>st sn. prog_match l = Some (st, sn) \<and> st \<in> set ''uUbBrRdDtT''"
  shows "count_symbols dump = Inr (classified dump)
    \<and> (run_nm tc = Some dump \<and> analyze tc = Inr m \<longrightarrow>
         undefined_symbol_count m = class_count ''uU'' dump
         \<and> undefined_symbol_size m = class_size ''uU'' dump
         \<and> data_symbol_count m = class_count ''bBrRdD'' dump
         \<and> data_symbol_size m = class_size ''bBrRdD'' dump
         \<and> code_symbol_count m = class_count ''tT'' dump
         \<and> code_symbol_size m = class_size ''tT'' dump)"
proof -
  from assms have k: "\<forall>l \<in> set dump. known_line l"
    by (fastforce simp: known_line_def has_type_def)
  then have c: "count_symbols dump = Inr (classified dump)"
    by (rule count_symbols_known)
  have "undefined_symbol_count m = class_count ''uU'' dump
         \<and> undefined_symbol_size m = class_size ''uU'' dump
         \<and> data_symbol_count m = class_count ''bBrRdD'' dump
         \<and> data_symbol_size m = class_size ''bBrRdD'' dump
         \<and> code_symbol_count m = class_count ''tT'' dump
         \<and> code_symbol_size m = class_size ''tT'' dump"
    if "run_nm tc = Some dump" "analyze tc = Inr m"
  proof -
    from that(2) obtain dump' s where "run_nm tc = Some dump'" "count_symbols dump' = Inr s"
      "undefined_symbol_count m = undef_sym_cnt s" "undefined_symbol_size m = undef_sym_size s"
      "data_symbol_count m = data_sym_cnt s" "data_symbol_size m = data_sym_size s"
      "code_symbol_count m = code_sym_cnt s" "code_symbol_size m = code_sym_size s"
      by (auto elim: analyze_success)
    with that(1) c have "s = classified dump" by simp
    with \<open>undefined_symbol_count m = undef_sym_cnt s\<close> \<open>undefined_symbol_size m = undef_sym_size s\<close>
      \<open>data_symbol_count m = data_sym_cnt s\<close> \<open>data_symbol_size m = data_sym_size s\<close>
      \<open>code_symbol_count m = code_sym_cnt s\<close> \<open>code_symbol_size m = code_sym_size s\<close>
    show ?thesis
      by (simp add: classified_def)
  qed
  with c show ?thesis by blast
qed

theorem symbol_counts_by_class_witness:
  "prog_match ''0000 T foo'' = Some (CHR ''T'', ''foo'')
   \<and> prog_match ''0000 D bar'' = Some (CHR ''D'', ''bar'')
   \<and> prog_match ''0000 U baz'' = Some (CHR ''U'', ''baz'')
   \<and> classified [''0000 T foo'', ''0000 D bar'', ''0000 U baz''] =
       \<lparr>undef_sym_cnt = 1, undef_sym_size = 3, data_sym_cnt = 1, data_sym_size = 3,
        code_sym_cnt = 1, code_sym_size = 3\<rparr>
   \<and> reported code_symbol_count (quiet_toolchain [] [''0000 T foo'', ''0000 D bar'', ''0000 U baz''])
       = Some (class_count ''tT'' [''0000 T foo'', ''0000 D bar'', ''0000 U baz''])"
proof -
  let ?dump = "[''0000 T foo'', ''0000 D bar'', ''0000 U baz'']"
  have h: "\<forall>l \<in> set ?dump. \<exists>st sn. prog_match l = Some (st, sn) \<and> st \<in> set ''uUbBrRdDtT''"
    by (simp add: example_dump)
  obtain m where m: "analyze (quiet_toolchain [] ?dump) = Inr m"
    by (simp add: analyze_quiet example_count)
  have n: "run_nm (quiet_toolchain [] ?dump) = Some ?dump"
    by (simp add: quiet_toolchain_def)
  from symbol_counts_by_class [OF h, of "quiet_toolchain [] ?dump" m] m n example_count
  show ?thesis
    by (simp add: reported_def example_dump)
qed

text \<open>
  Claim C6. If a line of the symbol dump does not match the grammar, or matches with a
  type character outside \<open>u U b B r R d D t T\<close>, the classification fails with an
  assertion error (the \<open>ParseError\<close> of the specification), and so does every run of the
  engine that reaches it; no run of the engine on this dump returns a record.
\<close>

theorem unknown_line_is_parse_error:
  assumes "l \<in> set dump"
    and "prog_match l = None
         \<or> (\<exists>st sn. prog_match l = Some (st, sn) \<and> st \<notin> set ''uUbBrRdDtT'')"
  shows "(\<exists>msg. count_symbols dump = Inl (AssertionError msg))
    \<and> (run_preproc tc = Some ls \<and> run_compile tc = Some osize \<and> run_nm tc = Some dump \<longrightarrow>
         (\<exists>msg. analyze tc = Inl (AssertionError msg)))
    \<and> (run_nm tc = Some dump \<longrightarrow> (\<forall>m. analyze tc \<noteq> Inr m))"
proof -
  from assms(2) have "\<not> known_line l"
    by (auto simp: known_line_def has_type_def)
  with assms(1) have bad: "\<exists>l \<in> set dump. \<not> known_line l" by blast
  from symbol_loop_unknown [OF this, of no_symbols]
  obtain msg where c: "count_symbols dump = Inl (AssertionError msg)"
    by (auto simp: count_symbols_def)
  have "analyze tc = Inl (AssertionError msg)"
    if "run_preproc tc = Some ls \<and> run_compile tc = Some osize \<and> run_nm tc = Some dump"
    using that c by (simp add: analyze_parse_failure)
  moreover have "analyze tc \<noteq> Inr m" if "run_nm tc = Some dump" for m
  proof
    assume "analyze tc = Inr m"
    then obtain dump' s where "run_nm tc = Some dump'" "count_symbols dump' = Inr s"
      by (auto elim: analyze_success)
    with that c show False by simp
  qed
  ultimately show ?thesis using c by blast
qed

theorem unknown_line_is_parse_error_witness:
  "''0000 X qux'' \<in> set [''0000 T foo'', ''0000 X qux'']
   \<and> prog_match ''0000 X qux'' = Some (CHR ''X'', ''qux'') \<and> CHR ''X'' \<notin> set ''uUbBrRdDtT''
   \<and> (\<exists>msg. count_symbols [''0000 T foo'', ''0000 X qux''] = Inl (AssertionError msg))
   \<and> (\<exists>msg. analyze (quiet_toolchain [] [''0000 T foo'', ''0000 X qux'']) = Inl (AssertionError msg))"
proof -
  let ?dump = "[''0000 T foo'', ''0000 X qux'']"
  have i: "''0000 X qux'' \<in> set ?dump" by simp
  have x: "prog_match ''0000 X qux'' = None
         \<or> (\<exists>st sn. prog_match ''0000 X qux'' = Some (st, sn) \<and> st \<notin> set ''uUbBrRdDtT'')"
    by (simp add: example_dump)
  have t: "run_preproc (quiet_toolchain [] ?dump) = Some []
     \<and> run_compile (quiet_toolchain [] ?dump) = Some 1024
     \<and> run_nm (quiet_toolchain [] ?dump) = Some ?dump"
    by (simp add: quiet_toolchain_def)
  from unknown_line_is_parse_error [OF i x, of "quiet_toolchain [] ?dump" "[]" 1024] t
  show ?thesis
    by (simp add: example_dump)
qed

text \<open>
  Claim C9, as stated: every count of a record returned by the engine is non-negative,
  whatever the preprocessed output is. The two line counts are not: the script subtracts
  2 and 1 from them without a test. When the preprocessed target is the single line of
  \<^verbatim>\<open>main\<close> (an empty header, preprocessed without line markers), the record returned
  has \<^verbatim>\<open>line_count_raw = -1\<close>.
\<close>

theorem negative_line_count_raw_counterexample:
  "reported line_count_raw (quiet_toolchain [''int main() { return 0; }''] []) = Some (- 1)"
  by (simp add: reported_def analyze_quiet count_symbols_def line_counts_def)

text \<open>
  Claim C9, amended. In every record returned by the engine the three symbol counts are
  non-negative; \<^verbatim>\<open>line_count_raw\<close> is at least -2 and \<^verbatim>\<open>line_count\<close> at least -1;
  \<^verbatim>\<open>line_count_raw\<close> is non-negative exactly when the preprocessed output has two lines
  or more, and \<^verbatim>\<open>line_count\<close> exactly when one of its lines holds a letter, a digit or
  an underscore.
\<close>

theorem counts_lower_bounds:
  assumes "analyze tc = Inr m"
  shows "0 \<le> undefined_symbol_count m \<and> 0 \<le> data_symbol_count m \<and> 0 \<le> code_symbol_count m
    \<and> - 2 \<le> line_count_raw m \<and> - 1 \<le> line_count m
    \<and> (run_preproc tc = Some ls \<longrightarrow>
         (0 \<le> line_count_raw m \<longleftrightarrow> 2 \<le> length ls)
         \<and> (0 \<le> line_count m \<longleftrightarrow> list_ex prog_search ls))"
proof -
  from assms obtain ls' dump s where r: "run_preproc tc = Some ls'"
    and s: "count_symbols dump = Inr s"
    and l: "line_count_raw m = fst (line_counts ls')" "line_count m = snd (line_counts ls')"
    and c: "undefined_symbol_count m = undef_sym_cnt s" "data_symbol_count m = data_sym_cnt s"
      "code_symbol_count m = code_sym_cnt s"
    by (auto elim: analyze_success)
  from count_symbols_success(2) [OF s] c
  have "0 \<le> undefined_symbol_count m \<and> 0 \<le> data_symbol_count m \<and> 0 \<le> code_symbol_count m"
    by (simp add: classified_def class_count_nonneg)
  moreover from l have "- 2 \<le> line_count_raw m \<and> - 1 \<le> line_count m"
    by (simp add: line_counts_eq)
  moreover have "(0 \<le> line_count_raw m \<longleftrightarrow> 2 \<le> length ls)
         \<and> (0 \<le> line_count m \<longleftrightarrow> list_ex prog_search ls)" if "run_preproc tc = Some ls"
  proof -
    from that r have e: "ls' = ls" by simp
    have "0 < length (filter prog_search ls) \<longleftrightarrow> list_ex prog_search ls"
      by (auto simp: list_ex_iff filter_empty_conv)
    with l e show ?thesis
      by (auto simp: line_counts_eq)
  qed
  ultimately show ?thesis by blast
qed

theorem counts_lower_bounds_witness:
  "reported undefined_symbol_count
      (quiet_toolchain [''int x;'', ''int main() { return 0; }''] [''0000 U baz'']) = Some 1
   \<and> reported line_count_raw
      (quiet_toolchain [''int x;'', ''int main() { return 0; }''] [''0000 U baz'']) = Some 0
   \<and> (\<exists>m. analyze (quiet_toolchain [''int x;'', ''int main() { return 0; }''] [''0000 U baz''])
            = Inr m
          \<and> 0 \<le> undefined_symbol_count m \<and> 0 \<le> line_count_raw m \<and> 0 \<le> line_count m)"
proof -
  let ?tc = "quiet_toolchain [''int x;'', ''int main() { return 0; }''] [''0000 U baz'']"
  have c: "count_symbols [''0000 U baz''] =
     Inr \<lparr>undef_sym_cnt = 1, undef_sym_size = 3, data_sym_cnt = 0, data_sym_size = 0,
          code_sym_cnt = 0, code_sym_size = 0\<rparr>"
    by (simp add: count_symbols_def no_symbols_def example_dump)
  obtain m where m: "analyze ?tc = Inr m"
    by (simp add: analyze_quiet c)
  have p: "run_preproc ?tc = Some [''int x;'', ''int main() { return 0; }'']"
    by (simp add: quiet_toolchain_def)
  have r: "reported undefined_symbol_count ?tc = Some 1" "reported line_count_raw ?tc = Some 0"
    by (simp_all add: reported_def analyze_quiet c line_counts_def)
  from counts_lower_bounds [OF m, of "[''int x;'', ''int main() { return 0; }'']"] p m r
  show ?thesis
    by (simp add: prog_search_def char_class_defs)
qed


section \<open>Properties of the cache key\<close>

lemma split_at_separator:
  "c \<notin> set x \<Longrightarrow> c \<notin> set y \<Longrightarrow> x @ c # r = y @ c # r' \<Longrightarrow> x = y \<and> r = r'"
proof (induction x arbitrary: y)
  case Nil
  then show ?case by (cases y) auto
next
  case (Cons a x)
  then show ?case by (cases y) auto
qed

lemma join_Cons: "ys \<noteq> [] \<Longrightarrow> join sep (x # ys) = x @ sep @ join sep ys"
  by (cases ys) simp_all

text \<open>On non-empty lists of strings without colon, joining with a colon loses nothing.\<close>

lemma join_colon_inject:
  "xs \<noteq> [] \<Longrightarrow> ys \<noteq> [] \<Longrightarrow> list_all colon_free xs \<Longrightarrow> list_all colon_free ys \<Longrightarrow>
     join '':'' xs = join '':'' ys \<Longrightarrow> xs = ys"
proof (induction xs arbitrary: ys)
  case Nil
  then show ?case by simp
next
  case (Cons x xs)
  from Cons.prems(2) obtain y ys' where ys: "ys = y # ys'" by (cases ys) auto
  from Cons.prems(3,4) ys have rest: "list_all colon_free xs" "list_all colon_free ys'"
    and "colon_free x" "colon_free y"
    by simp_all
  then have cf: "CHR '':'' \<notin> set x" "CHR '':'' \<notin> set y"
    by (simp_all add: colon_free_def)
  show ?case
  proof (cases "xs = []")
    case True
    show ?thesis
    proof (cases "ys' = []")
      case True
      with \<open>xs = []\<close> Cons.prems(5) ys show ?thesis by simp
    next
      case False
      with True Cons.prems(5) ys have "x = y @ CHR '':'' # join '':'' ys'"
        by (simp add: join_Cons)
      then have "CHR '':'' \<in> set x" by simp
      with cf show ?thesis by simp
    qed
  next
    case False
    show ?thesis
    proof (cases "ys' = []")
      case True
      with False Cons.prems(5) ys have "y = x @ CHR '':'' # join '':'' xs"
        by (simp add: join_Cons)
      then have "CHR '':'' \<in> set y" by simp
      with cf show ?thesis by simp
    next
      case ne: False
      with False Cons.prems(5) ys
      have "x @ CHR '':'' # join '':'' xs = y @ CHR '':'' # join '':'' ys'"
        by (simp add: join_Cons)
      from split_at_separator [OF cf this]
      have "x = y" "join '':'' xs = join '':'' ys'" by simp_all
      with Cons.IH [OF False ne rest] ys show ?thesis by simp
    qed
  qed
qed

text \<open>
  Claim C3, as stated: two jobs have the same cache key only if they have the same file,
  compiler and list of arguments, and jobs that differ in the order of their arguments have
  different keys. The key is the plain \<^verbatim>\<open>":".join\<close> of the strings, and a string may hold
  a colon: the arguments \<^verbatim>\<open>["-Ix", "-Ix:-Ix"]\<close> and \<^verbatim>\<open>["-Ix:-Ix", "-Ix"]\<close>, one list the
  other in reverse order, give one key.
\<close>

theorem cache_key_injective_counterexample:
  "cache_key \<lparr>job_file = ''a.hh'', compiler = ''/usr/bin/g++'', args = [''-Ix'', ''-Ix:-Ix'']\<rparr>
     = cache_key \<lparr>job_file = ''a.hh'', compiler = ''/usr/bin/g++'', args = [''-Ix:-Ix'', ''-Ix'']\<rparr>
   \<and> [''-Ix'', ''-Ix:-Ix''] \<noteq> [''-Ix:-Ix'', ''-Ix'']
   \<and> [''-Ix:-Ix'', ''-Ix''] = rev [''-Ix'', ''-Ix:-Ix'']"
  by (simp add: cache_key_def)

text \<open>
  Claim C3, amended. Jobs with the same file, compiler and list of arguments have the same
  cache key; and for two jobs none of whose file, compiler and arguments holds a colon, the
  keys are equal exactly when file, compiler and the list of arguments are: such jobs that
  differ in the order of their arguments have different keys.
\<close>

theorem cache_key_injective_without_colon:
  "(job_file j = job_file j' \<and> compiler j = compiler j' \<and> args j = args j'
      \<longrightarrow> cache_key j = cache_key j')
   \<and> (plain_job j \<and> plain_job j' \<longrightarrow>
        (cache_key j = cache_key j' \<longleftrightarrow>
           job_file j = job_file j' \<and> compiler j = compiler j' \<and> args j = args j'))"
proof -
  have same: "cache_key j = cache_key j'"
    if "job_file j = job_file j' \<and> compiler j = compiler j' \<and> args j = args j'"
    using that by (simp add: cache_key_def)
  have "job_file j = job_file j' \<and> compiler j = compiler j' \<and> args j = args j'"
    if p: "plain_job j \<and> plain_job j'" and k: "cache_key j = cache_key j'"
  proof -
    let ?xs = "[job_file j, compiler j] @ args j" and ?ys = "[job_file j', compiler j'] @ args j'"
    from p have "list_all colon_free ?xs" "list_all colon_free ?ys"
      by (simp_all add: plain_job_def)
    moreover have "?xs \<noteq> []" "?ys \<noteq> []" by simp_all
    moreover from k have "join '':'' ?xs = join '':'' ?ys"
      by (simp only: cache_key_def)
    ultimately have "?xs = ?ys"
      by (intro join_colon_inject)
    then show ?thesis by simp
  qed
  with same show ?thesis by blast
qed

theorem cache_key_injective_without_colon_witness:
  "plain_job \<lparr>job_file = ''a.hh'', compiler = ''/usr/bin/g++'', args = [''-O2'', ''-g'']\<rparr>
   \<and> plain_job \<lparr>job_file = ''a.hh'', compiler = ''/usr/bin/g++'', args = [''-g'', ''-O2'']\<rparr>
   \<and> cache_key \<lparr>job_file = ''a.hh'', compiler = ''/usr/bin/g++'', args = [''-O2'', ''-g'']\<rparr>
       \<noteq> cache_key \<lparr>job_file = ''a.hh'', compiler = ''/usr/bin/g++'', args = [''-g'', ''-O2'']\<rparr>"
proof -
  let ?j = "\<lparr>job_file = ''a.hh'', compiler = ''/usr/bin/g++'', args = [''-O2'', ''-g'']\<rparr>"
  let ?j' = "\<lparr>job_file = ''a.hh'', compiler = ''/usr/bin/g++'', args = [''-g'', ''-O2'']\<rparr>"
  have p: "plain_job ?j \<and> plain_job ?j'"
    by (simp add: plain_job_def colon_free_def)
  from cache_key_injective_without_colon [of ?j ?j'] p show ?thesis
    by simp
qed

section \<open>Properties of the orchestrator\<close>

lemma process_job_hit:
  "job_cache st (cache_key j) = Some r \<Longrightarrow>
     process_job engine st j = Inr (merge (st\<lparr>found_cached := found_cached st + 1\<rparr>) j r)"
  by (simp add: process_job_def)

text \<open>What one job does to the state when the script goes on to the next job.\<close>

lemma process_job_step:
  assumes "process_job engine st j = Inr st'"
  shows "\<exists>x. done_jobs st' = done_jobs st @ [x] \<and> job_cache st' (cache_key j) = Some (res x)
      \<and> (job_cache st (cache_key j) = None \<longrightarrow>
           job_cache st' = (job_cache st)(cache_key j \<mapsto> res x)
           \<and> cache_file st' = Some (job_cache st'))"
    and "job_cache st \<subseteq>\<^sub>m job_cache st'"
    and "invoked st' \<le> invoked st + 1"
    and "job_cache st (cache_key j) \<noteq> None \<Longrightarrow>
           job_cache st' = job_cache st \<and> cache_file st' = cache_file st"
proof -
  show "\<exists>x. done_jobs st' = done_jobs st @ [x] \<and> job_cache st' (cache_key j) = Some (res x)
      \<and> (job_cache st (cache_key j) = None \<longrightarrow>
           job_cache st' = (job_cache st)(cache_key j \<mapsto> res x)
           \<and> cache_file st' = Some (job_cache st'))"
    using assms by (auto simp: process_job_def merge_def split: option.splits sum.splits)
  show "job_cache st \<subseteq>\<^sub>m job_cache st'"
    using assms by (auto simp: process_job_def merge_def map_le_def split: option.splits sum.splits)
  show "invoked st' \<le> invoked st + 1"
    using assms by (auto simp: process_job_def merge_def split: option.splits sum.splits)
  show "job_cache st' = job_cache st \<and> cache_file st' = cache_file st"
    if "job_cache st (cache_key j) \<noteq> None"
    using assms that by (auto simp: process_job_def merge_def split: option.splits sum.splits)
qed


lemma run_append:
  "run engine st (js @ js') =
     (case run engine st js of Inl failure \<Rightarrow> Inl failure | Inr st' \<Rightarrow> run engine st' js')"
  by (induction js arbitrary: st) (simp_all split: sum.splits)

lemma run_success:
  "run engine st js = Inr st' \<Longrightarrow>
     job_cache st \<subseteq>\<^sub>m job_cache st'
     \<and> (\<exists>new. done_jobs st' = done_jobs st @ new \<and> length new = length js)"
proof (induction js arbitrary: st)
  case Nil
  then show ?case by simp
next
  case (Cons j js)
  then obtain s where s: "process_job engine st j = Inr s" and r: "run engine s js = Inr st'"
    by (auto split: sum.splits)
  from process_job_step(1,2) [OF s]
  obtain x where x: "done_jobs s = done_jobs st @ [x]" "job_cache st \<subseteq>\<^sub>m job_cache s"
    by blast
  from Cons.IH [OF r] obtain new where "job_cache s \<subseteq>\<^sub>m job_cache st'"
    "done_jobs st' = done_jobs s @ new" "length new = length js"
    by blast
  with x have "job_cache st \<subseteq>\<^sub>m job_cache st'"
    "done_jobs st' = done_jobs st @ (x # new)" "length (x # new) = length (j # js)"
    by (auto intro: map_le_trans)
  then show ?case by blast
qed





text \<open>
  Claim C4. Let a run of the orchestrator that ends without an exception hold two jobs
  \<open>ja\<close> and \<open>jb\<close>, \<open>ja\<close> before \<open>jb\<close>, with the same file, compiler and arguments. Then both
  jobs get the same measurements in the result; \<open>jb\<close> is answered from the cache: the
  engine is not run for it and \<^verbatim>\<open>found_cached\<close> goes up by one; and the engine is run once
  at most for \<open>ja\<close>. The engine may answer differently each time it is run.
\<close>

theorem identical_jobs_measured_once:
  assumes "execute_jobs engine disk (pre @ ja # mid @ jb # post) = Inr final"
    and "job_file ja = job_file jb" and "compiler ja = compiler jb" and "args ja = args jb"
  shows "\<exists>s0 s1 s2 s3.
      run engine (initial disk) pre = Inr s0 \<and> process_job engine s0 ja = Inr s1
      \<and> run engine s1 mid = Inr s2 \<and> process_job engine s2 jb = Inr s3
      \<and> run engine s3 post = Inr final
      \<and> res (done_jobs final ! length pre) = res (done_jobs final ! (length pre + 1 + length mid))
      \<and> (invoked s1 - invoked s0) + (invoked s3 - invoked s2) \<le> 1
      \<and> invoked s3 = invoked s2
      \<and> found_cached s3 = found_cached s2 + 1"
proof -
  have key: "cache_key ja = cache_key jb"
    using assms(2-4) by (simp add: cache_key_def)
  from assms(1) obtain s0 where s0: "run engine (initial disk) pre = Inr s0"
    and r0: "run engine s0 (ja # mid @ jb # post) = Inr final"
    by (auto simp: execute_jobs_def run_append split: sum.splits)
  from r0 obtain s1 where s1: "process_job engine s0 ja = Inr s1"
    and r1: "run engine s1 (mid @ jb # post) = Inr final"
    by (auto split: sum.splits)
  from r1 obtain s2 where s2: "run engine s1 mid = Inr s2"
    and r2: "run engine s2 (jb # post) = Inr final"
    by (auto simp: run_append split: sum.splits)
  from r2 obtain s3 where s3: "process_job engine s2 jb = Inr s3"
    and r3: "run engine s3 post = Inr final"
    by (auto split: sum.splits)
  from run_success [OF s0] have d0: "length (done_jobs s0) = length pre"
    by (auto simp: initial_def)
  from process_job_step(1,3) [OF s1]
  obtain x where x: "done_jobs s1 = done_jobs s0 @ [x]"
    "job_cache s1 (cache_key ja) = Some (res x)" "invoked s1 \<le> invoked s0 + 1"
    by blast
  from run_success [OF s2] obtain new where c2: "job_cache s1 \<subseteq>\<^sub>m job_cache s2"
    and d2: "done_jobs s2 = done_jobs s1 @ new" "length new = length mid"
    by blast
  from c2 x(2) key have hit: "job_cache s2 (cache_key jb) = Some (res x)"
    by (auto simp: map_le_def dom_def)
  from s3 process_job_hit [OF hit, of engine]
  have e3: "s3 = merge (s2\<lparr>found_cached := found_cached s2 + 1\<rparr>) jb (res x)"
    by simp
  then obtain y where y: "done_jobs s3 = done_jobs s2 @ [y]" "res y = res x"
    and i3: "invoked s3 = invoked s2" and f3: "found_cached s3 = found_cached s2 + 1"
    by (simp add: merge_def)
  from run_success [OF r3] obtain new' where "done_jobs final = done_jobs s3 @ new'"
    by blast
  with x(1) d2 y(1) have df: "done_jobs final = done_jobs s0 @ x # new @ y # new'"
    by simp
  have "done_jobs final ! length pre = x"
    unfolding df using d0 by (simp add: nth_append)
  moreover have "done_jobs final ! (length pre + 1 + length mid) = y"
  proof -
    have "done_jobs final = (done_jobs s0 @ x # new) @ y # new'"
      by (simp add: df)
    moreover have "length (done_jobs s0 @ x # new) = length pre + 1 + length mid"
      using d0 d2(2) by simp
    ultimately show ?thesis
      by (metis nth_append_length)
  qed
  ultimately have "res (done_jobs final ! length pre)
      = res (done_jobs final ! (length pre + 1 + length mid))"
    using y(2) by simp
  moreover from x(3) i3 have "(invoked s1 - invoked s0) + (invoked s3 - invoked s2) \<le> 1"
    by simp
  ultimately show ?thesis
    using s0 s1 s2 s3 r3 i3 f3 by blast
qed

lemma example_keys:
  "cache_key job_a = ''a.hh:/usr/bin/g++:-O2''" "cache_key job_b = ''a.hh:/usr/bin/g++:-O0''"
  by (simp_all add: cache_key_def job_a_def job_b_def)

lemma example_miss:
  "process_job counting_engine (initial None) job_a =
     Inr \<lparr>job_cache = [''a.hh:/usr/bin/g++:-O2'' \<mapsto> 0],
          cache_file = Some [''a.hh:/usr/bin/g++:-O2'' \<mapsto> 0],
          found_cached = 0, idx = 1,
          done_jobs = [\<lparr>job_file = ''a.hh'', compiler = ''/usr/bin/g++'', args = [''-O2''],
                        job_id = 0, argstr = ''-O2'', res = 0\<rparr>],
          invoked = 1\<rparr>"
  by (simp add: process_job_def initial_def example_keys counting_engine_def merge_def)
    (simp add: job_a_def)

lemma example_run:
  "execute_jobs counting_engine None [job_a, job_b, job_a] =
     Inr \<lparr>job_cache = [''a.hh:/usr/bin/g++:-O2'' \<mapsto> 0, ''a.hh:/usr/bin/g++:-O0'' \<mapsto> 1],
          cache_file = Some [''a.hh:/usr/bin/g++:-O2'' \<mapsto> 0, ''a.hh:/usr/bin/g++:-O0'' \<mapsto> 1],
          found_cached = 1, idx = 3,
          done_jobs = [\<lparr>job_file = ''a.hh'', compiler = ''/usr/bin/g++'', args = [''-O2''],
                        job_id = 0, argstr = ''-O2'', res = 0\<rparr>,
                       \<lparr>job_file = ''a.hh'', compiler = ''/usr/bin/g++'', args = [''-O0''],
                        job_id = 1, argstr = ''-O0'', res = 1\<rparr>,
                       \<lparr>job_file = ''a.hh'', compiler = ''/usr/bin/g++'', args = [''-O2''],
                        job_id = 2, argstr = ''-O2'', res = 0\<rparr>],
          invoked = 2\<rparr>"
  by (simp add: execute_jobs_def example_miss)
    (simp add: process_job_def example_keys counting_engine_def merge_def, simp add: job_a_def job_b_def)

theorem identical_jobs_measured_once_witness:
  "\<exists>final. execute_jobs counting_engine None ([] @ job_a # [job_b] @ job_a # []) = Inr final
      \<and> res (done_jobs final ! length ([] :: job list))
          = res (done_jobs final ! (length ([] :: job list) + 1 + length [job_b]))
      \<and> found_cached final = 1 \<and> invoked final = 2"
proof -
  obtain final where f: "execute_jobs counting_engine None ([] @ job_a # [job_b] @ job_a # []) = Inr final"
    and c: "found_cached final = 1" "invoked final = 2"
    by (simp add: example_run)
  from identical_jobs_measured_once [OF f refl refl refl] f c show ?thesis
    by blast
qed




end
